theory Spec2Isabelle
  imports Main "HOL-Library.Dlist"
begin

section \<open>Pipeline handler infrastructure (pipeline\_handler.cpp)\<close>

text \<open>
  A shallow embedding of the base class \<^verbatim>\<open>PipelineHandler\<close>, of \<^verbatim>\<open>CameraData\<close> and of
  \<^verbatim>\<open>PipelineHandlerFactory\<close>. Objects the C++ code reaches through pointers are
  addresses (natural numbers); the objects themselves live in explicit stores, so that
  two pointers to one object alias in the model as they do in the code. A C++ member
  \<^verbatim>\<open>x_\<close> is the record field \<open>x_m\<close> (an identifier cannot end in an underscore
  here).
\<close>

subsection \<open>Data model\<close>

type_synonym camera_ptr = nat
type_synonym request_ptr = nat
type_synonym buffer_ptr = nat
type_synonym media_ptr = nat

text \<open>
  The completion states of a request and of a buffer. The code names
  \<^verbatim>\<open>Request::RequestComplete\<close> and \<^verbatim>\<open>Request::RequestCancelled\<close>; the other states are
  those of the spec (pending, and for a buffer completed or cancelled).
\<close>

datatype RequestStatus = RequestPending | RequestComplete | RequestCancelled

datatype BufferStatus = BufferPending | BufferCompleted | BufferCancelled

text \<open>
  The part of a \<^verbatim>\<open>Request\<close> this file touches: the container \<^verbatim>\<open>pending_\<close> of buffers
  not yet completed (the code uses \<^verbatim>\<open>empty()\<close> and \<^verbatim>\<open>*begin()\<close> on it) and the completion
  status. The container is a set in the code; it is a list without duplicates here
  (a \<open>dlist\<close>), whose order is the iteration order of the container.
\<close>

record Request =
  pending_m :: "buffer_ptr dlist"
  status_m :: RequestStatus

text \<open>
  \<^verbatim>\<open>CameraData\<close>: the camera it belongs to (null until \<^verbatim>\<open>registerCamera\<close>) and the
  list of queued, not yet completed requests. The handler owns each instance through a
  \<^verbatim>\<open>std::unique_ptr\<close>, so an instance is a value of the handler's map.
\<close>

record CameraData =
  camera_m :: "camera_ptr option"
  queuedRequests_m :: "request_ptr list"

text \<open>
  What the handler does to its collaborators is recorded, in order, in a trace: the
  signals it emits on a camera, the calls it makes on the camera manager and on a media
  device's \<^verbatim>\<open>disconnected\<close> signal. A completion event carries the status the object has
  at the moment of the notification.
\<close>

datatype event =
    EvBufferCompleted camera_ptr request_ptr buffer_ptr BufferStatus
  | EvRequestComplete camera_ptr request_ptr RequestStatus
  | EvCameraDisconnect camera_ptr
  | EvAddCamera camera_ptr
  | EvRemoveCamera camera_ptr
  | EvSignalConnect media_ptr
  | EvSignalDisconnect media_ptr

text \<open>
  The state: the members of the handler (\<^verbatim>\<open>cameraData_\<close>, a map from cameras to their
  data, and \<^verbatim>\<open>cameras_\<close>, the weak references to the registered cameras), the stores of
  requests and buffers, which weak camera references still resolve (\<open>alive\<close>), and the
  trace.
\<close>

record state =
  cameraData_m :: "camera_ptr \<Rightarrow> CameraData option"
  cameras_m :: "camera_ptr list"
  requests :: "request_ptr \<Rightarrow> Request"
  buffers :: "buffer_ptr \<Rightarrow> BufferStatus"
  alive :: "camera_ptr \<Rightarrow> bool"
  trace :: "event list"

text \<open>The way a call can fail to return: a failed \<^verbatim>\<open>ASSERT\<close>.\<close>

datatype error = AssertionFailed

subsection \<open>Collaborators that are not part of this file\<close>

text \<open>
  Modelled from the spec: the macro \<^verbatim>\<open>ASSERT\<close> comes from \<^verbatim>\<open>log.h\<close>, which is missing.
  The spec calls a failed assertion a fatal, unrecoverable programming error: the call
  ends with \<open>Inl AssertionFailed\<close> and no state.
\<close>

definition ASSERT :: "bool \<Rightarrow> error + unit" where
  "ASSERT condition = (if condition then Inr () else Inl AssertionFailed)"



text \<open>
  Modelled from the spec: \<^verbatim>\<open>Request::complete\<close> is missing. The spec has it mark the
  request with the terminal status it is given.
\<close>

definition Request_complete :: "state \<Rightarrow> request_ptr \<Rightarrow> RequestStatus \<Rightarrow> state" where
  "Request_complete s request st =
     s\<lparr>requests := (requests s)(request := (requests s request)\<lparr>status_m := st\<rparr>)\<rparr>"

text \<open>
  The handler's calls on collaborators outside it are appended to the trace, one event
  for each call.
\<close>

definition emit :: "state \<Rightarrow> event \<Rightarrow> state" where
  "emit s e = s\<lparr>trace := trace s @ [e]\<rparr>"


text \<open>
  Modelled from the spec: \<^verbatim>\<open>Camera::requestComplete\<close> is missing. The spec has it
  signal the completion of the request to the owning camera.
\<close>

definition Camera_requestComplete :: "state \<Rightarrow> camera_ptr \<Rightarrow> request_ptr \<Rightarrow> state" where
  "Camera_requestComplete s camera request =
     emit s (EvRequestComplete camera request (status_m (requests s request)))"

text \<open>
  Modelled from the spec: \<^verbatim>\<open>Camera::disconnect\<close> is missing. The spec has it mark the
  camera disconnected.
\<close>

definition Camera_disconnect :: "state \<Rightarrow> camera_ptr \<Rightarrow> state" where
  "Camera_disconnect s camera = emit s (EvCameraDisconnect camera)"

text \<open>
  Modelled from the spec: \<^verbatim>\<open>CameraManager::addCamera\<close> is missing. The spec has it hand
  the camera to the camera manager.
\<close>

definition CameraManager_addCamera :: "state \<Rightarrow> camera_ptr \<Rightarrow> state" where
  "CameraManager_addCamera s camera = emit s (EvAddCamera camera)"

text \<open>
  Modelled from the spec: \<^verbatim>\<open>CameraManager::removeCamera\<close> is missing. The spec has it
  unregister the camera from the camera manager.
\<close>

definition CameraManager_removeCamera :: "state \<Rightarrow> camera_ptr \<Rightarrow> state" where
  "CameraManager_removeCamera s camera = emit s (EvRemoveCamera camera)"

text \<open>
  Modelled from the spec: the signal \<^verbatim>\<open>MediaDevice::disconnected\<close> and its
  \<^verbatim>\<open>connect\<close> are missing. The spec has the handler opt a device into disconnect
  monitoring.
\<close>

definition MediaDevice_disconnected_connect :: "state \<Rightarrow> media_ptr \<Rightarrow> state" where
  "MediaDevice_disconnected_connect s media = emit s (EvSignalConnect media)"

text \<open>
  Modelled from the spec: the signal \<^verbatim>\<open>MediaDevice::disconnected\<close> and its
  \<^verbatim>\<open>disconnect\<close> are missing. The spec has the handler stop monitoring the device.
\<close>

definition MediaDevice_disconnected_disconnect :: "state \<Rightarrow> media_ptr \<Rightarrow> state" where
  "MediaDevice_disconnected_disconnect s media = emit s (EvSignalDisconnect media)"

subsection \<open>PipelineHandler\<close>

text \<open>
  The constructor: no camera data, no cameras. The pointer \<^verbatim>\<open>manager_\<close> never changes;
  the calls made through it are the manager events of the trace.
\<close>

definition PipelineHandler :: "state \<Rightarrow> state" where
  "PipelineHandler s = s\<lparr>cameraData_m := (\<lambda>_. None), cameras_m := []\<rparr>"

text \<open>
  \<^verbatim>\<open>cameraData(camera)\<close>: asserts that the camera is a key of \<^verbatim>\<open>cameraData_\<close> and
  returns its data.
\<close>

definition cameraData :: "state \<Rightarrow> camera_ptr \<Rightarrow> error + CameraData" where
  "cameraData s camera =
     (case ASSERT (cameraData_m s camera \<noteq> None) of
        Inl e \<Rightarrow> Inl e
      | Inr _ \<Rightarrow> (case cameraData_m s camera of
                   None \<Rightarrow> Inl AssertionFailed
                 | Some data \<Rightarrow> Inr data))"

text \<open>
  The code changes the queue through the pointer \<^verbatim>\<open>data\<close> that \<^verbatim>\<open>cameraData\<close>
  returned; \<open>setQueue\<close> is that write, into the data of \<open>camera\<close>.
\<close>

definition setQueue :: "state \<Rightarrow> camera_ptr \<Rightarrow> request_ptr list \<Rightarrow> state" where
  "setQueue s camera q =
     (case cameraData_m s camera of
        None \<Rightarrow> s
      | Some data \<Rightarrow>
          s\<lparr>cameraData_m := (cameraData_m s)(camera := Some (data\<lparr>queuedRequests_m := q\<rparr>))\<rparr>)"

definition queueOf :: "state \<Rightarrow> camera_ptr \<Rightarrow> request_ptr list" where
  "queueOf s camera =
     (case cameraData_m s camera of None \<Rightarrow> [] | Some data \<Rightarrow> queuedRequests_m data)"

text \<open>\<^verbatim>\<open>queueRequest\<close>: \<^verbatim>\<open>push_back\<close> on the camera's queue, then \<^verbatim>\<open>return 0\<close>.\<close>

definition queueRequest :: "state \<Rightarrow> camera_ptr \<Rightarrow> request_ptr \<Rightarrow> error + (int \<times> state)" where
  "queueRequest s camera request =
     (case cameraData s camera of
        Inl e \<Rightarrow> Inl e
      | Inr data \<Rightarrow> Inr (0, setQueue s camera (queuedRequests_m data @ [request])))"


text \<open>
  \<^verbatim>\<open>queuedRequests_.front()\<close>: the first request of the queue. An empty queue has no
  request at its front, so what \<^verbatim>\<open>front()\<close> gives there is no queued request and
  compares unequal to every request.
\<close>

definition list_front :: "request_ptr list \<Rightarrow> request_ptr option" where
  "list_front q = (case q of [] \<Rightarrow> None | request # _ \<Rightarrow> Some request)"

text \<open>
  \<^verbatim>\<open>completeRequest\<close>: asserts that the request is \<^verbatim>\<open>queuedRequests_.front()\<close>, pops
  the front of the queue, marks the request complete and signals the camera.
\<close>

definition completeRequest :: "state \<Rightarrow> camera_ptr \<Rightarrow> request_ptr \<Rightarrow> error + state" where
  "completeRequest s camera request =
     (case cameraData s camera of
        Inl e \<Rightarrow> Inl e
      | Inr data \<Rightarrow>
          (case ASSERT (Some request = list_front (queuedRequests_m data)) of
             Inl e \<Rightarrow> Inl e
           | Inr _ \<Rightarrow>
               Inr (Camera_requestComplete
                      (Request_complete (setQueue s camera (tl (queuedRequests_m data)))
                         request RequestComplete)
                      camera request)))"






text \<open>
  \<^verbatim>\<open>registerCamera\<close>: sets the back-reference of the data, stores the data under the
  camera, keeps a weak reference to the camera and hands the camera to the manager.
\<close>

definition registerCamera :: "state \<Rightarrow> camera_ptr \<Rightarrow> CameraData \<Rightarrow> state" where
  "registerCamera s camera data =
     (let data' = data\<lparr>camera_m := Some camera\<rparr>;
          s1 = s\<lparr>cameraData_m := (cameraData_m s)(camera := Some data')\<rparr>;
          s2 = s1\<lparr>cameras_m := cameras_m s1 @ [camera]\<rparr>
      in CameraManager_addCamera s2 camera)"

text \<open>\<^verbatim>\<open>hotplugMediaDevice\<close>: connects the handler to the device's signal.\<close>

definition hotplugMediaDevice :: "state \<Rightarrow> media_ptr \<Rightarrow> state" where
  "hotplugMediaDevice s media = MediaDevice_disconnected_connect s media"

text \<open>
  The loop of \<^verbatim>\<open>disconnect\<close> over \<^verbatim>\<open>cameras_\<close>: a weak reference that does not lock is
  skipped; a camera that is alive is disconnected and removed from the manager.
\<close>

fun disconnectLoop :: "camera_ptr list \<Rightarrow> state \<Rightarrow> state" where
  "disconnectLoop [] s = s"
| "disconnectLoop (ptr # ptrs) s =
     (if \<not> alive s ptr then disconnectLoop ptrs s
      else disconnectLoop ptrs (CameraManager_removeCamera (Camera_disconnect s ptr) ptr))"

definition disconnect :: "state \<Rightarrow> state" where
  "disconnect s = (disconnectLoop (cameras_m s) s)\<lparr>cameras_m := []\<rparr>"

text \<open>
  \<^verbatim>\<open>mediaDeviceDisconnected\<close>: disconnects the handler from the device's signal, returns
  if the handler has no camera, and calls \<^verbatim>\<open>disconnect\<close> otherwise.
\<close>

definition mediaDeviceDisconnected :: "state \<Rightarrow> media_ptr \<Rightarrow> state" where
  "mediaDeviceDisconnected s media =
     (let s1 = MediaDevice_disconnected_disconnect s media
      in if cameras_m s1 = [] then s1 else disconnect s1)"

text \<open>A run of \<^verbatim>\<open>registerCamera\<close> calls, in the order of the list.\<close>

fun registerCameras :: "state \<Rightarrow> (camera_ptr \<times> CameraData) list \<Rightarrow> state" where
  "registerCameras s [] = s"
| "registerCameras s ((camera, data) # regs) = registerCameras (registerCamera s camera data) regs"

text \<open>
  A run of \<^verbatim>\<open>queueRequest\<close> and \<^verbatim>\<open>completeRequest\<close> calls on one camera; a call that
  fails ends the run with its error.
\<close>

datatype call = QueueRequest request_ptr | CompleteRequest request_ptr

fun run :: "state \<Rightarrow> camera_ptr \<Rightarrow> call list \<Rightarrow> error + state" where
  "run s camera [] = Inr s"
| "run s camera (QueueRequest request # calls) =
     (case queueRequest s camera request of
        Inl e \<Rightarrow> Inl e
      | Inr (ret, s') \<Rightarrow> run s' camera calls)"
| "run s camera (CompleteRequest request # calls) =
     (case completeRequest s camera request of
        Inl e \<Rightarrow> Inl e
      | Inr s' \<Rightarrow> run s' camera calls)"

text \<open>
  The runs the FIFO rule allows from a queue \<open>q\<close>: every \<^verbatim>\<open>completeRequest\<close> names the
  request that is at the front of the queue when the call is made.
\<close>

fun respectsFifo :: "request_ptr list \<Rightarrow> call list \<Rightarrow> bool" where
  "respectsFifo q [] = True"
| "respectsFifo q (QueueRequest request # calls) = respectsFifo (q @ [request]) calls"
| "respectsFifo [] (CompleteRequest request # calls) = False"
| "respectsFifo (front # rest) (CompleteRequest request # calls) =
     (request = front \<and> respectsFifo rest calls)"

text \<open>The requests a run queues and the requests it completes, each in order.\<close>

fun queuedBy :: "call list \<Rightarrow> request_ptr list" where
  "queuedBy [] = []"
| "queuedBy (QueueRequest request # calls) = request # queuedBy calls"
| "queuedBy (CompleteRequest request # calls) = queuedBy calls"

fun completedBy :: "call list \<Rightarrow> request_ptr list" where
  "completedBy [] = []"
| "completedBy (QueueRequest request # calls) = completedBy calls"
| "completedBy (CompleteRequest request # calls) = request # completedBy calls"


text \<open>The buffers each request waits for in a state.\<close>

definition pendingOf :: "state \<Rightarrow> request_ptr \<Rightarrow> buffer_ptr list" where
  "pendingOf s request = list_of_dlist (pending_m (requests s request))"



text \<open>
  The calls \<^verbatim>\<open>disconnect\<close> makes for a list of weak references: for each reference that
  resolves, the camera's \<^verbatim>\<open>disconnect\<close> and the manager's \<^verbatim>\<open>removeCamera\<close>.
\<close>

definition disconnectEvents :: "state \<Rightarrow> camera_ptr list \<Rightarrow> event list" where
  "disconnectEvents s ptrs =
     concat (map (\<lambda>ptr. if alive s ptr then [EvCameraDisconnect ptr, EvRemoveCamera ptr] else [])
       ptrs)"

subsection \<open>Matching media devices\<close>

datatype HandleState = Free | Acquired

type_synonym resources = "media_ptr \<Rightarrow> HandleState"

text \<open>
  Modelled from the spec: \<^verbatim>\<open>MediaDevice::acquire\<close> and \<^verbatim>\<open>MediaDevice::release\<close> are
  missing. The spec has a resource handle in one of the states Free and Acquired, held by
  at most one owner: acquiring a handle that is acquired fails and changes nothing.
\<close>

definition MediaDevice_acquire :: "resources \<Rightarrow> media_ptr \<Rightarrow> bool \<times> resources" where
  "MediaDevice_acquire res media =
     (if res media = Acquired then (False, res) else (True, res(media := Acquired)))"

definition MediaDevice_release :: "resources \<Rightarrow> media_ptr \<Rightarrow> resources" where
  "MediaDevice_release res media = res(media := Free)"

text \<open>
  Modelled from the spec: the release of the devices a failed attempt has acquired, one
  \<^verbatim>\<open>MediaDevice::release\<close> for each.
\<close>

fun releaseAll :: "media_ptr list \<Rightarrow> resources \<Rightarrow> resources" where
  "releaseAll [] res = res"
| "releaseAll (media # acquired) res = releaseAll acquired (MediaDevice_release res media)"

text \<open>
  Modelled from the spec: \<^verbatim>\<open>PipelineHandler::match\<close> is pure virtual in this file, and
  the pipeline handlers that implement it are missing. The spec has a match attempt
  first find the devices it requires among those the enumerator offers, then acquire
  them one by one; when an acquisition fails it releases the devices it has acquired
  during the attempt and reports no match. \<open>required\<close> are the devices one pipeline
  instance needs, \<open>available\<close> the ones the enumerator offers. (The creation of cameras
  after a successful match is left to the implementations.)
\<close>

fun acquireRequired :: "media_ptr list \<Rightarrow> media_ptr list \<Rightarrow> resources \<Rightarrow> bool \<times> resources" where
  "acquireRequired [] acquired res = (True, res)"
| "acquireRequired (media # required) acquired res =
     (case MediaDevice_acquire res media of
        (False, res') \<Rightarrow> (False, releaseAll acquired res')
      | (True, res') \<Rightarrow> acquireRequired required (media # acquired) res')"

definition match :: "media_ptr list \<Rightarrow> media_ptr list \<Rightarrow> resources \<Rightarrow> bool \<times> resources" where
  "match required available res =
     (if \<not> set required \<subseteq> set available then (False, res)
      else acquireRequired required [] res)"

subsection \<open>PipelineHandlerFactory\<close>

type_synonym factory_ptr = nat

text \<open>
  The state of the process the factories live in: the static vector inside
  \<^verbatim>\<open>factories()\<close>, the name of each factory object, and the lines written to the log.
\<close>

record process =
  factories_static :: "factory_ptr list"
  name_m :: "factory_ptr \<Rightarrow> string"
  logged :: "string list"

text \<open>\<^verbatim>\<open>factories()\<close> returns the static vector.\<close>

definition factories :: "process \<Rightarrow> factory_ptr list" where
  "factories p = factories_static p"

text \<open>\<^verbatim>\<open>registerType\<close>: \<^verbatim>\<open>push_back\<close> on the vector, then one debug line with the name.\<close>

definition registerType :: "process \<Rightarrow> factory_ptr \<Rightarrow> process" where
  "registerType p factory =
     (let p1 = p\<lparr>factories_static := factories p @ [factory]\<rparr>
      in p1\<lparr>logged := logged p1 @
              [''Registered pipeline handler '' @ [CHR 0x22] @ name_m p1 factory @ [CHR 0x22]]\<rparr>)"

text \<open>The constructor of a factory stores the name and registers the factory.\<close>

definition PipelineHandlerFactory :: "process \<Rightarrow> factory_ptr \<Rightarrow> string \<Rightarrow> process" where
  "PipelineHandlerFactory p this name =
     registerType (p\<lparr>name_m := (name_m p)(this := name)\<rparr>) this"

text \<open>A run of registrations, in the order of the list.\<close>

fun registerTypes :: "process \<Rightarrow> factory_ptr list \<Rightarrow> process" where
  "registerTypes p [] = p"
| "registerTypes p (factory # fs) = registerTypes (registerType p factory) fs"

subsection \<open>Concrete states\<close>

text \<open>
  A handler just constructed, in a world where every request is pending with no buffer
  and every camera is alive; and two cameras registered with it.
\<close>

definition state0 :: state where
  "state0 = PipelineHandler
     \<lparr>cameraData_m = (\<lambda>_. None), cameras_m = [],
      requests = (\<lambda>_. \<lparr>pending_m = Dlist.empty, status_m = RequestPending\<rparr>),
      buffers = (\<lambda>_. BufferPending), alive = (\<lambda>_. True), trace = []\<rparr>"

definition data0 :: CameraData where
  "data0 = \<lparr>camera_m = None, queuedRequests_m = []\<rparr>"

definition state2 :: state where
  "state2 = registerCamera (registerCamera state0 10 data0) 20 data0"

text \<open>
  The first camera with two requests in its queue: request 100 waits for the buffers 200
  and 201, request 101 for the buffer 202.
\<close>

definition state3 :: state where
  "state3 = (setQueue state2 10 [100, 101])
     \<lparr>requests := (requests state2)
        (100 := \<lparr>pending_m = Dlist [200, 201], status_m = RequestPending\<rparr>,
         101 := \<lparr>pending_m = Dlist [202], status_m = RequestPending\<rparr>)\<rparr>"


text \<open>The two cameras registered, the second one destroyed by its other holders.\<close>

definition state4 :: state where
  "state4 = state2\<lparr>alive := (alive state2)(20 := False)\<rparr>"

text \<open>Media devices, all free but device 13.\<close>

definition resources0 :: resources where
  "resources0 = (\<lambda>_. Free)(13 := Acquired)"

section \<open>Properties\<close>

subsection \<open>Facts about the building blocks\<close>

lemma cameraData_registered:
  "cameraData_m s camera = Some data \<Longrightarrow> cameraData s camera = Inr data"
  by (simp add: cameraData_def ASSERT_def)

lemma cameraData_unregistered:
  "cameraData_m s camera = None \<Longrightarrow> cameraData s camera = Inl AssertionFailed"
  by (simp add: cameraData_def ASSERT_def)

lemma state2_data:
  "cameraData_m state2 10 = Some \<lparr>camera_m = Some 10, queuedRequests_m = []\<rparr>"
  "cameraData_m state2 20 = Some \<lparr>camera_m = Some 20, queuedRequests_m = []\<rparr>"
  "cameraData_m state2 30 = None"
  by (simp_all add: state2_def state0_def data0_def registerCamera_def PipelineHandler_def
      CameraManager_addCamera_def emit_def Let_def)

lemma state3_data:
  "cameraData_m state3 10 = Some \<lparr>camera_m = Some 10, queuedRequests_m = [100, 101]\<rparr>"
  by (simp add: state3_def setQueue_def state2_data)

lemma state3_world:
  "pendingOf state3 100 = [200, 201]"
  "pendingOf state3 101 = [202]"
  "buffers state3 b = BufferPending"
  "trace state3 = [EvAddCamera 10, EvAddCamera 20]"
  by (simp_all add: state3_def setQueue_def state2_data pendingOf_def)
    (simp_all add: state2_def state0_def registerCamera_def CameraManager_addCamera_def emit_def
      PipelineHandler_def Let_def)



lemma queueOf_registered:
  "cameraData_m s camera = Some data \<Longrightarrow> queueOf s camera = queuedRequests_m data"
  by (simp add: queueOf_def)



subsection \<open>queueRequest\<close>

text \<open>
  C10. For a camera registered with the handler and any request, the base
  \<^verbatim>\<open>queueRequest\<close> returns 0: it appends the request to the camera's queue whatever the
  length of the queue and whatever else the state holds, and changes nothing else.
\<close>

theorem queueRequest_returns_zero:
  assumes "cameraData_m s camera = Some data"
  shows "queueRequest s camera request =
           Inr (0, s\<lparr>cameraData_m := (cameraData_m s)
                      (camera := Some (data\<lparr>queuedRequests_m := queuedRequests_m data @ [request]\<rparr>))\<rparr>)"
  using assms by (simp add: queueRequest_def cameraData_registered setQueue_def)

theorem queueRequest_returns_zero_witness:
  "cameraData_m state2 10 = Some \<lparr>camera_m = Some 10, queuedRequests_m = []\<rparr> \<and>
   map_sum id fst (queueRequest state2 10 7) = Inr 0 \<and>
   map_sum id (\<lambda>r. queueOf (snd r) 10) (queueRequest state2 10 7) = Inr [7]"
  using queueRequest_returns_zero [OF state2_data(1), of 7]
  by (simp add: state2_data queueOf_def)

subsection \<open>cameraData and registerCamera\<close>

lemma cameraData_m_registerCameras:
  "cameraData_m (registerCameras s regs) camera =
     (case map_of (rev regs) camera of
        None \<Rightarrow> cameraData_m s camera
      | Some data \<Rightarrow> Some (data\<lparr>camera_m := Some camera\<rparr>))"
proof (induction regs arbitrary: s)
  case Nil
  show ?case by simp
next
  case (Cons reg regs)
  obtain c d where reg: "reg = (c, d)" by (cases reg)
  show ?case
    by (simp add: reg Cons.IH registerCamera_def CameraManager_addCamera_def emit_def Let_def
        map_add_def split: option.splits)
qed

text \<open>
  C8. Take a handler just constructed and any run of \<^verbatim>\<open>registerCamera\<close> calls. For a
  camera that one of the calls registered, \<^verbatim>\<open>cameraData\<close> returns the data passed to
  the (last) \<^verbatim>\<open>registerCamera\<close> call for that camera, with the back-reference to the
  camera that \<^verbatim>\<open>registerCamera\<close> has set in it; for a camera that no call registered,
  \<^verbatim>\<open>cameraData\<close> is a failed assertion. (\<open>map_of (rev regs)\<close> finds the last pair
  for a camera.)
\<close>

theorem cameraData_returns_registered_data:
  "cameraData (registerCameras (PipelineHandler s) regs) camera =
     (case map_of (rev regs) camera of
        None \<Rightarrow> Inl AssertionFailed
      | Some data \<Rightarrow> Inr (data\<lparr>camera_m := Some camera\<rparr>))"
proof (cases "map_of (rev regs) camera")
  case None
  then have "cameraData_m (registerCameras (PipelineHandler s) regs) camera = None"
    by (simp add: cameraData_m_registerCameras PipelineHandler_def)
  with None show ?thesis
    by (simp add: cameraData_unregistered)
next
  case (Some data)
  then have "cameraData_m (registerCameras (PipelineHandler s) regs) camera =
      Some (data\<lparr>camera_m := Some camera\<rparr>)"
    by (simp add: cameraData_m_registerCameras)
  with Some show ?thesis
    by (simp add: cameraData_registered)
qed

subsection \<open>The registry of factories\<close>

lemma factories_registerType: "factories (registerType p factory) = factories p @ [factory]"
  by (simp add: registerType_def factories_def Let_def)

lemma factories_registerTypes: "factories (registerTypes p fs) = factories p @ fs"
  by (induction fs arbitrary: p) (simp_all add: factories_registerType)

text \<open>
  C9. After any run of \<^verbatim>\<open>registerType\<close> calls, \<^verbatim>\<open>factories()\<close> is the list it was
  before followed by the registered factories in the order of their registration: each
  call appends one entry, and no entry is removed or moved. Nothing in this depends on
  the names: a factory registered by its constructor is appended like any other, and
  two factories constructed with one name are both in the list.
\<close>

theorem registerType_appends_in_order:
  "factories (registerTypes p fs) = factories p @ fs \<and>
   factories (registerType p factory) = factories p @ [factory] \<and>
   factories (PipelineHandlerFactory p this name) = factories p @ [this] \<and>
   name_m (PipelineHandlerFactory p this name) this = name \<and>
   factories (PipelineHandlerFactory (PipelineHandlerFactory p this name) other name) =
     factories p @ [this, other]"
  by (simp add: factories_registerTypes factories_registerType PipelineHandlerFactory_def)
    (simp add: registerType_def factories_def Let_def)

subsection \<open>completeRequest\<close>

text \<open>
  C3. When the queue of a registered camera is not empty and \<^verbatim>\<open>completeRequest\<close> is
  called with the request at its front, the call succeeds and changes the state in three
  places only: the queue of the camera loses its front entry, the request gets the status
  \<^verbatim>\<open>RequestComplete\<close>, and one request completion carrying that status is signalled to
  the camera. The rest of the queue, the other requests and the other cameras are as
  before.
\<close>

theorem completeRequest_front:
  assumes "cameraData_m s camera = Some data"
    and "queuedRequests_m data = request # rest"
  shows "completeRequest s camera request =
     Inr (s\<lparr>cameraData_m := (cameraData_m s)(camera := Some (data\<lparr>queuedRequests_m := rest\<rparr>)),
            requests := (requests s)(request := (requests s request)\<lparr>status_m := RequestComplete\<rparr>),
            trace := trace s @ [EvRequestComplete camera request RequestComplete]\<rparr>)"
  using assms
  by (simp add: completeRequest_def cameraData_registered ASSERT_def list_front_def setQueue_def
      Request_complete_def Camera_requestComplete_def emit_def)

theorem completeRequest_front_witness:
  "cameraData_m state3 10 = Some \<lparr>camera_m = Some 10, queuedRequests_m = [100, 101]\<rparr> \<and>
   map_sum id (\<lambda>s'. queueOf s' 10) (completeRequest state3 10 100) = Inr [101] \<and>
   map_sum id (\<lambda>s'. status_m (requests s' 100)) (completeRequest state3 10 100) =
     Inr RequestComplete \<and>
   map_sum id trace (completeRequest state3 10 100) =
     Inr [EvAddCamera 10, EvAddCamera 20, EvRequestComplete 10 100 RequestComplete]"
  using completeRequest_front [OF state3_data, of 100 "[101]"]
  by (simp add: state3_data state3_world queueOf_def)



subsection \<open>completeBuffer\<close>





subsection \<open>Runs of queueRequest and completeRequest\<close>

lemma queueRequest_step:
  assumes "cameraData_m s camera = Some data"
  shows "\<exists>s'. queueRequest s camera request = Inr (0, s') \<and>
     cameraData_m s' camera = Some (data\<lparr>queuedRequests_m := queuedRequests_m data @ [request]\<rparr>)"
  using assms by (simp add: queueRequest_def cameraData_registered setQueue_def)

lemma completeRequest_step:
  assumes "cameraData_m s camera = Some data" and "queuedRequests_m data = request # rest"
  shows "\<exists>s'. completeRequest s camera request = Inr s' \<and>
     cameraData_m s' camera = Some (data\<lparr>queuedRequests_m := rest\<rparr>)"
  using assms
  by (simp add: completeRequest_def cameraData_registered ASSERT_def list_front_def setQueue_def
      Request_complete_def Camera_requestComplete_def emit_def)

lemma run_respectsFifo:
  "respectsFifo q calls \<Longrightarrow> cameraData_m s camera = Some data \<Longrightarrow> queuedRequests_m data = q \<Longrightarrow>
   \<exists>s'. run s camera calls = Inr s' \<and> q @ queuedBy calls = completedBy calls @ queueOf s' camera"
proof (induction q calls arbitrary: s data rule: respectsFifo.induct)
  case (1 q)
  then show ?case by (simp add: queueOf_def)
next
  case (2 q request calls)
  from queueRequest_step [OF "2.prems"(2), of request] obtain s1 where
    s1: "queueRequest s camera request = Inr (0, s1)"
    "cameraData_m s1 camera = Some (data\<lparr>queuedRequests_m := queuedRequests_m data @ [request]\<rparr>)"
    by blast
  from "2.prems" have "respectsFifo (q @ [request]) calls" by simp
  from "2.IH" [OF this s1(2)] "2.prems"(3) obtain s' where
    "run s1 camera calls = Inr s'"
    "(q @ [request]) @ queuedBy calls = completedBy calls @ queueOf s' camera"
    by auto
  with s1(1) show ?case by simp
next
  case (3 request calls)
  then show ?case by simp
next
  case (4 front rest request calls)
  then have eq: "request = front" and fifo: "respectsFifo rest calls" by simp_all
  from "4.prems"(3) eq have "queuedRequests_m data = request # rest" by simp
  from completeRequest_step [OF "4.prems"(2) this] obtain s1 where
    s1: "completeRequest s camera request = Inr s1"
    "cameraData_m s1 camera = Some (data\<lparr>queuedRequests_m := rest\<rparr>)"
    by blast
  from "4.IH" [OF fifo s1(2)] obtain s' where
    "run s1 camera calls = Inr s'"
    "rest @ queuedBy calls = completedBy calls @ queueOf s' camera"
    by auto
  with s1(1) eq show ?case by simp
qed

text \<open>
  C5. Take a registered camera and a run of \<^verbatim>\<open>queueRequest\<close> and \<^verbatim>\<open>completeRequest\<close>
  calls in which every \<^verbatim>\<open>completeRequest\<close> names the request at the front of the queue
  at that moment. The run succeeds, and what was in the queue followed by what the run
  queued is what the run completed followed by what is in the queue at the end: so the
  length of the queue is the number of requests queued less the number completed, and
  the queue is empty exactly when every queued request has been completed. In any such
  state one \<^verbatim>\<open>queueRequest\<close> appends its request at the back of the queue and makes it
  one longer, and one \<^verbatim>\<open>completeRequest\<close> of the front request makes it one shorter.
\<close>

theorem queue_length_under_fifo_runs:
  assumes "cameraData_m s camera = Some data"
    and "respectsFifo (queuedRequests_m data) calls"
  shows "(\<exists>s'. run s camera calls = Inr s' \<and>
      queuedRequests_m data @ queuedBy calls = completedBy calls @ queueOf s' camera \<and>
      length (queueOf s' camera) =
        length (queuedRequests_m data) + length (queuedBy calls) - length (completedBy calls) \<and>
      (queueOf s' camera = [] \<longleftrightarrow>
        completedBy calls = queuedRequests_m data @ queuedBy calls)) \<and>
    (\<exists>s'. queueRequest s camera request = Inr (0, s') \<and>
      queueOf s' camera = queueOf s camera @ [request] \<and>
      length (queueOf s' camera) = Suc (length (queueOf s camera))) \<and>
    (queueOf s camera \<noteq> [] \<longrightarrow>
      (\<exists>s'. completeRequest s camera (hd (queueOf s camera)) = Inr s' \<and>
        queueOf s' camera = tl (queueOf s camera) \<and>
        Suc (length (queueOf s' camera)) = length (queueOf s camera)))"
proof (intro conjI impI)
  from run_respectsFifo [OF assms(2) assms(1) refl] obtain s' where
    r: "run s camera calls = Inr s'"
    and e: "queuedRequests_m data @ queuedBy calls = completedBy calls @ queueOf s' camera"
    by blast
  from e have "length (queuedRequests_m data) + length (queuedBy calls) =
      length (completedBy calls) + length (queueOf s' camera)"
    by (metis length_append)
  moreover from e have "queueOf s' camera = [] \<longleftrightarrow>
      completedBy calls = queuedRequests_m data @ queuedBy calls"
    by auto
  ultimately show "\<exists>s'. run s camera calls = Inr s' \<and>
      queuedRequests_m data @ queuedBy calls = completedBy calls @ queueOf s' camera \<and>
      length (queueOf s' camera) =
        length (queuedRequests_m data) + length (queuedBy calls) - length (completedBy calls) \<and>
      (queueOf s' camera = [] \<longleftrightarrow>
        completedBy calls = queuedRequests_m data @ queuedBy calls)"
    using r e by auto
next
  from queueRequest_step [OF assms(1), of request]
  show "\<exists>s'. queueRequest s camera request = Inr (0, s') \<and>
      queueOf s' camera = queueOf s camera @ [request] \<and>
      length (queueOf s' camera) = Suc (length (queueOf s camera))"
    using assms(1) by (auto simp: queueOf_def)
next
  assume "queueOf s camera \<noteq> []"
  with assms(1) obtain front rest where q: "queuedRequests_m data = front # rest"
    by (cases "queuedRequests_m data") (auto simp: queueOf_def)
  from completeRequest_step [OF assms(1) q]
  show "\<exists>s'. completeRequest s camera (hd (queueOf s camera)) = Inr s' \<and>
        queueOf s' camera = tl (queueOf s camera) \<and>
        Suc (length (queueOf s' camera)) = length (queueOf s camera)"
    using assms(1) q by (auto simp: queueOf_def)
qed

theorem queue_length_under_fifo_runs_witness:
  "cameraData_m state3 10 = Some \<lparr>camera_m = Some 10, queuedRequests_m = [100, 101]\<rparr> \<and>
   respectsFifo [100, 101] [CompleteRequest 100, QueueRequest 102, CompleteRequest 101] \<and>
   (\<exists>s'. run state3 10 [CompleteRequest 100, QueueRequest 102, CompleteRequest 101] = Inr s' \<and>
      queueOf s' 10 = [102]) \<and>
   respectsFifo [100, 101] [CompleteRequest 100, CompleteRequest 101] \<and>
   (\<exists>s'. run state3 10 [CompleteRequest 100, CompleteRequest 101] = Inr s' \<and>
      queueOf s' 10 = []) \<and>
   queueOf state3 10 \<noteq> [] \<and>
   (\<exists>s'. completeRequest state3 10 100 = Inr s' \<and> queueOf s' 10 = [101])"
proof -
  have q: "queueOf state3 10 = [100, 101]"
    by (simp add: queueOf_registered [OF state3_data])
  have f1: "respectsFifo (queuedRequests_m \<lparr>camera_m = Some 10, queuedRequests_m = [100, 101]\<rparr>)
      [CompleteRequest 100, QueueRequest 102, CompleteRequest 101]"
    by simp
  have f2: "respectsFifo (queuedRequests_m \<lparr>camera_m = Some 10, queuedRequests_m = [100, 101]\<rparr>)
      [CompleteRequest 100, CompleteRequest 101]"
    by simp
  have a: "\<exists>s'. run state3 10 [CompleteRequest 100, QueueRequest 102, CompleteRequest 101] = Inr s' \<and>
      queueOf s' 10 = [102]"
    using queue_length_under_fifo_runs [OF state3_data f1, of 0]
    by (auto simp del: run.simps)
  have b: "\<exists>s'. run state3 10 [CompleteRequest 100, CompleteRequest 101] = Inr s' \<and>
      queueOf s' 10 = []"
    using queue_length_under_fifo_runs [OF state3_data f2, of 0]
    by (auto simp del: run.simps)
  have c: "\<exists>s'. completeRequest state3 10 100 = Inr s' \<and> queueOf s' 10 = [101]"
    using queue_length_under_fifo_runs [OF state3_data f2, of 0]
    by (auto simp del: run.simps simp add: q)
  show ?thesis
    using a b c by (simp del: run.simps add: q state3_data)
qed

subsection \<open>Hot-unplug\<close>

lemma state4_world:
  "cameras_m state4 = [10, 20]"
  "alive state4 c = (c \<noteq> 20)"
  "trace state4 = [EvAddCamera 10, EvAddCamera 20]"
  by (simp_all add: state4_def state2_def state0_def registerCamera_def
      CameraManager_addCamera_def emit_def PipelineHandler_def Let_def)

lemma disconnectEvents_simps:
  "disconnectEvents s [] = []"
  "disconnectEvents s (ptr # ptrs) =
     (if alive s ptr then [EvCameraDisconnect ptr, EvRemoveCamera ptr] else [])
     @ disconnectEvents s ptrs"
  by (simp_all add: disconnectEvents_def)

lemma disconnectEvents_trace_irrelevant:
  "disconnectEvents (s\<lparr>trace := t\<rparr>) ptrs = disconnectEvents s ptrs"
  by (simp add: disconnectEvents_def)

lemma disconnectLoop_effect:
  "disconnectLoop ptrs s = s\<lparr>trace := trace s @ disconnectEvents s ptrs\<rparr>"
proof (induction ptrs arbitrary: s)
  case Nil
  show ?case by (simp add: disconnectEvents_simps)
next
  case (Cons ptr ptrs)
  show ?case
    by (simp add: Cons.IH disconnectEvents_simps disconnectEvents_trace_irrelevant
        CameraManager_removeCamera_def Camera_disconnect_def emit_def)
qed

lemma count_disconnectEvents:
  "count_list (disconnectEvents s ptrs) (EvRemoveCamera c) =
     (if alive s c then count_list ptrs c else 0)"
  "count_list (disconnectEvents s ptrs) (EvCameraDisconnect c) =
     (if alive s c then count_list ptrs c else 0)"
  by (induction ptrs) (auto simp: disconnectEvents_simps)

lemma count_list_distinct:
  "distinct xs \<Longrightarrow> count_list xs x = (if x \<in> set xs then 1 else 0)"
  by (induction xs) auto

text \<open>
  C7. \<^verbatim>\<open>mediaDeviceDisconnected\<close> first disconnects the handler from the signal of the
  device. Then, for each weak reference in \<^verbatim>\<open>cameras_\<close>, in order, a camera that is
  alive gets one \<^verbatim>\<open>disconnect\<close> call and one \<^verbatim>\<open>removeCamera\<close> call of the manager,
  and a camera that is gone gets no call; \<^verbatim>\<open>cameras_\<close> is empty afterwards and nothing
  else changes. With no camera the disconnection from the signal is all that happens.
  So the number of calls for a camera is the number of references to it if it is alive,
  and none if not: exactly one for each live camera when no camera is held twice.
\<close>

theorem mediaDeviceDisconnected_cascade:
  "mediaDeviceDisconnected s media =
     s\<lparr>cameras_m := [],
       trace := trace s @ EvSignalDisconnect media # disconnectEvents s (cameras_m s)\<rparr> \<and>
   (cameras_m s = [] \<longrightarrow>
      mediaDeviceDisconnected s media = MediaDevice_disconnected_disconnect s media) \<and>
   (\<forall>c. count_list (disconnectEvents s (cameras_m s)) (EvCameraDisconnect c) =
          (if alive s c then count_list (cameras_m s) c else 0) \<and>
        count_list (disconnectEvents s (cameras_m s)) (EvRemoveCamera c) =
          (if alive s c then count_list (cameras_m s) c else 0)) \<and>
   (distinct (cameras_m s) \<longrightarrow>
      (\<forall>c. count_list (disconnectEvents s (cameras_m s)) (EvCameraDisconnect c) =
          (if c \<in> set (cameras_m s) \<and> alive s c then 1 else 0) \<and>
        count_list (disconnectEvents s (cameras_m s)) (EvRemoveCamera c) =
          (if c \<in> set (cameras_m s) \<and> alive s c then 1 else 0)))"
proof -
  have noop: "mediaDeviceDisconnected s media = MediaDevice_disconnected_disconnect s media"
    if "cameras_m s = []"
    using that
    by (simp add: mediaDeviceDisconnected_def MediaDevice_disconnected_disconnect_def emit_def
        Let_def)
  have eq: "mediaDeviceDisconnected s media =
     s\<lparr>cameras_m := [],
       trace := trace s @ EvSignalDisconnect media # disconnectEvents s (cameras_m s)\<rparr>"
  proof (cases "cameras_m s = []")
    case True
    then have "s\<lparr>cameras_m := []\<rparr> = s" by simp
    with True noop show ?thesis
      by (simp add: MediaDevice_disconnected_disconnect_def emit_def disconnectEvents_simps)
  next
    case False
    then show ?thesis
      by (simp add: mediaDeviceDisconnected_def MediaDevice_disconnected_disconnect_def
          disconnect_def disconnectLoop_effect emit_def disconnectEvents_trace_irrelevant Let_def)
  qed
  show ?thesis
    using eq noop by (simp add: count_disconnectEvents count_list_distinct)
qed

theorem mediaDeviceDisconnected_cascade_witness:
  "distinct (cameras_m state4) \<and> cameras_m state4 = [10, 20] \<and> alive state4 10 \<and> \<not> alive state4 20 \<and>
   mediaDeviceDisconnected state4 5 =
     state4\<lparr>cameras_m := [],
       trace := [EvAddCamera 10, EvAddCamera 20, EvSignalDisconnect 5,
                 EvCameraDisconnect 10, EvRemoveCamera 10]\<rparr> \<and>
   count_list (disconnectEvents state4 (cameras_m state4)) (EvRemoveCamera 10) = 1 \<and>
   count_list (disconnectEvents state4 (cameras_m state4)) (EvRemoveCamera 20) = 0 \<and>
   cameras_m state0 = [] \<and>
   mediaDeviceDisconnected state0 5 = MediaDevice_disconnected_disconnect state0 5"
proof -
  have e: "cameras_m state0 = []"
    by (simp add: state0_def PipelineHandler_def)
  have a: "mediaDeviceDisconnected state4 5 =
     state4\<lparr>cameras_m := [],
       trace := [EvAddCamera 10, EvAddCamera 20, EvSignalDisconnect 5,
                 EvCameraDisconnect 10, EvRemoveCamera 10]\<rparr>"
    using mediaDeviceDisconnected_cascade [of state4 5, THEN conjunct1]
    by (simp add: state4_world disconnectEvents_simps)
  have b: "mediaDeviceDisconnected state0 5 = MediaDevice_disconnected_disconnect state0 5"
    using mediaDeviceDisconnected_cascade [of state0 5, THEN conjunct2, THEN conjunct1] e
    by blast
  have d: "distinct (cameras_m state4)"
    by (simp add: state4_world)
  have c: "count_list (disconnectEvents state4 (cameras_m state4)) (EvRemoveCamera 10) = 1"
    "count_list (disconnectEvents state4 (cameras_m state4)) (EvRemoveCamera 20) = 0"
    using mediaDeviceDisconnected_cascade [of state4 5] d
    by (simp_all add: state4_world)
  show ?thesis
    using a b c e by (simp add: state4_world)
qed

subsection \<open>Matching\<close>

lemma HandleState_not_Acquired: "h \<noteq> Acquired \<longleftrightarrow> h = Free"
  by (cases h) simp_all

lemma releaseAll_after_acquire:
  assumes "res media \<noteq> Acquired"
  shows "releaseAll (media # acquired) (res(media := Acquired)) = releaseAll acquired res"
proof -
  from assms have "res media = Free"
    by (simp add: HandleState_not_Acquired)
  then have "res(media := Free) = res"
    by (simp add: fun_upd_idem)
  then show ?thesis
    by (simp add: MediaDevice_release_def)
qed

lemma acquireRequired_failed:
  "fst (acquireRequired required acquired res) = False \<Longrightarrow>
   snd (acquireRequired required acquired res) = releaseAll acquired res"
proof (induction required arbitrary: acquired res)
  case Nil
  then show ?case by simp
next
  case (Cons media required)
  show ?case
  proof (cases "res media = Acquired")
    case True
    then show ?thesis
      by (simp add: MediaDevice_acquire_def)
  next
    case False
    then have step: "acquireRequired (media # required) acquired res =
        acquireRequired required (media # acquired) (res(media := Acquired))"
      by (simp add: MediaDevice_acquire_def)
    from Cons.prems have "fst (acquireRequired required (media # acquired) (res(media := Acquired))) = False"
      by (simp only: step)
    then have "snd (acquireRequired required (media # acquired) (res(media := Acquired))) =
        releaseAll (media # acquired) (res(media := Acquired))"
      by (rule Cons.IH)
    also have "\<dots> = releaseAll acquired res"
      using False by (rule releaseAll_after_acquire)
    finally show ?thesis
      by (simp only: step)
  qed
qed

lemma acquireRequired_unavailable:
  "\<exists>media \<in> set required. res media = Acquired \<Longrightarrow>
   fst (acquireRequired required acquired res) = False"
proof (induction required arbitrary: acquired res)
  case Nil
  then show ?case by simp
next
  case (Cons media required)
  show ?case
  proof (cases "res media = Acquired")
    case True
    then show ?thesis
      by (simp add: MediaDevice_acquire_def)
  next
    case False
    then have step: "acquireRequired (media # required) acquired res =
        acquireRequired required (media # acquired) (res(media := Acquired))"
      by (simp add: MediaDevice_acquire_def)
    from Cons.prems obtain m where m: "m \<in> set (media # required)" "res m = Acquired"
      by blast
    with False have "m \<in> set required" "(res(media := Acquired)) m = Acquired"
      by auto
    then have "\<exists>m \<in> set required. (res(media := Acquired)) m = Acquired"
      by blast
    then have "fst (acquireRequired required (media # acquired) (res(media := Acquired))) = False"
      by (rule Cons.IH)
    then show ?thesis
      by (simp only: step)
  qed
qed

text \<open>
  C6. In the match attempt of the spec, if one of the required devices is acquired by
  someone already, the attempt reports no match; and whenever the attempt reports no
  match, every device is in the state it had before the attempt, so the set of acquired
  devices is the one from before: what the attempt had acquired, it has released.
\<close>

theorem failed_match_leaves_nothing_acquired:
  "((\<exists>media \<in> set required. res media = Acquired) \<longrightarrow>
      fst (match required available res) = False) \<and>
   (fst (match required available res) = False \<longrightarrow>
      snd (match required available res) = res \<and>
      {media. snd (match required available res) media = Acquired} = {media. res media = Acquired})"
proof (intro conjI impI)
  assume "\<exists>media \<in> set required. res media = Acquired"
  then show "fst (match required available res) = False"
    by (simp add: match_def acquireRequired_unavailable)
next
  assume failed: "fst (match required available res) = False"
  show same: "snd (match required available res) = res"
  proof (cases "set required \<subseteq> set available")
    case True
    with failed have "fst (acquireRequired required [] res) = False"
      by (simp add: match_def)
    from acquireRequired_failed [OF this] True show ?thesis
      by (simp add: match_def)
  next
    case False
    then show ?thesis
      by (simp add: match_def)
  qed
  show "{media. snd (match required available res) media = Acquired} = {media. res media = Acquired}"
    by (simp add: same)
qed

theorem failed_match_leaves_nothing_acquired_witness:
  "(\<exists>media \<in> set [11, 12, 13]. resources0 media = Acquired) \<and>
   fst (match [11, 12, 13] [11, 12, 13, 14] resources0) = False \<and>
   snd (match [11, 12, 13] [11, 12, 13, 14] resources0) = resources0 \<and>
   snd (match [11, 12, 13] [11, 12, 13, 14] resources0) 11 = Free \<and>
   snd (match [11, 12, 13] [11, 12, 13, 14] resources0) 12 = Free \<and>
   fst (MediaDevice_acquire resources0 11) = True \<and>
   fst (MediaDevice_acquire (snd (MediaDevice_acquire resources0 11)) 12) = True \<and>
   fst (MediaDevice_acquire
     (snd (MediaDevice_acquire (snd (MediaDevice_acquire resources0 11)) 12)) 13) = False"
proof -
  have h: "\<exists>media \<in> set [11, 12, 13]. resources0 media = Acquired"
    by (simp add: resources0_def)
  from failed_match_leaves_nothing_acquired [of "[11, 12, 13]" resources0 "[11, 12, 13, 14]"] h
  have a: "fst (match [11, 12, 13] [11, 12, 13, 14] resources0) = False"
    and b: "snd (match [11, 12, 13] [11, 12, 13, 14] resources0) = resources0"
    by blast+
  show ?thesis
    using h a
    by (simp add: b) (simp add: resources0_def MediaDevice_acquire_def)
qed

subsection \<open>stop\<close>















end
